theory Spec2Isabelle
  imports Main "HOL-Library.AList" "HOL-Library.Multiset"
begin

section \<open>The JavaScript runtime pieces the program relies on\<close>

text \<open>
  A thrown JavaScript \<open>Error\<close> is represented by its \<open>message\<close>. The program only
  ever constructs plain \<open>Error\<close> objects and only ever reads \<open>.message\<close> from what
  it catches.
\<close>

datatype error = Error (message: string)

text \<open>The one-character string \<open>'\n'\<close>.\<close>

definition nl :: string where
  "nl = [CHR 0x0A]"

text \<open>\<open>Array.prototype.join(sep)\<close> on an array of strings.\<close>

fun Array_join :: "string \<Rightarrow> string list \<Rightarrow> string" where
  "Array_join sep [] = []"
| "Array_join sep [x] = x"
| "Array_join sep (x # y # ys) = x @ sep @ Array_join sep (y # ys)"

text \<open>
  \<open>Array.prototype.sort(compareFn)\<close>. The comparison function returns a number;
  \<open>a\<close> is placed before \<open>b\<close> when the number is not positive. The algorithm of the
  engine is not fixed by the language; for a consistent comparison function its
  result is the stably sorted permutation, which is what insertion from the right
  computes.
\<close>

fun insert_by :: "('a \<Rightarrow> 'a \<Rightarrow> int) \<Rightarrow> 'a \<Rightarrow> 'a list \<Rightarrow> 'a list" where
  "insert_by compareFn x [] = [x]"
| "insert_by compareFn x (y # ys) =
     (if compareFn x y \<le> 0 then x # y # ys else y # insert_by compareFn x ys)"

fun Array_sort :: "('a \<Rightarrow> 'a \<Rightarrow> int) \<Rightarrow> 'a list \<Rightarrow> 'a list" where
  "Array_sort compareFn [] = []"
| "Array_sort compareFn (x # xs) = insert_by compareFn x (Array_sort compareFn xs)"

text \<open>
  \<open>String.prototype.localeCompare\<close> depends on the locale of the host and is a
  parameter of the describing operations below. The language requires it to be a
  consistent comparison function: any two strings are comparable and the order is
  transitive.
\<close>

definition consistent_compare :: "('a \<Rightarrow> 'a \<Rightarrow> int) \<Rightarrow> bool" where
  "consistent_compare compareFn \<longleftrightarrow>
     (\<forall>a b. compareFn a b \<le> 0 \<or> compareFn b a \<le> 0) \<and>
     (\<forall>a b c. compareFn a b \<le> 0 \<longrightarrow> compareFn b c \<le> 0 \<longrightarrow> compareFn a c \<le> 0)"

definition ordered_by :: "('a \<Rightarrow> 'a \<Rightarrow> int) \<Rightarrow> 'a list \<Rightarrow> bool" where
  "ordered_by compareFn xs = sorted_wrt (\<lambda>a b. compareFn a b \<le> 0) xs"

text \<open>
  A plain object \<open>{}\<close> used as a dictionary. Its own properties are kept as an
  association list in creation order. Two things of the language show through:

  \<^item> a property read \<open>obj[name]\<close> that finds no own property continues in
    \<open>Object.prototype\<close>, whose properties are listed in \<open>Object_prototype_keys\<close>;
  \<^item> \<open>Object.keys\<close> lists the own keys that are array indices first, in ascending
    numeric order, and the other keys after them in creation order.
\<close>

definition Object_prototype_keys :: "string list" where
  "Object_prototype_keys =
     [''constructor'', ''hasOwnProperty'', ''isPrototypeOf'', ''propertyIsEnumerable'',
      ''toLocaleString'', ''toString'', ''valueOf'', ''__proto__'',
      ''__defineGetter__'', ''__defineSetter__'', ''__lookupGetter__'', ''__lookupSetter__'']"

datatype 'a property = Own 'a | Inherited | Undefined

definition get_property :: "(string \<times> 'a) list \<Rightarrow> string \<Rightarrow> 'a property" where
  "get_property obj nm =
     (case map_of obj nm of
        Some x \<Rightarrow> Own x
      | None \<Rightarrow> if nm \<in> set Object_prototype_keys then Inherited else Undefined)"

text \<open>The test \<open>x != null\<close> on what a property read returned.\<close>

fun not_null :: "'a property \<Rightarrow> bool" where
  "not_null Undefined = False"
| "not_null (Own x) = True"
| "not_null Inherited = True"

definition digit_value :: "char \<Rightarrow> int" where
  "digit_value c = of_char c - 48"

definition to_number :: "string \<Rightarrow> int" where
  "to_number s = foldl (\<lambda>n c. 10 * n + digit_value c) 0 s"

text \<open>An array index is the canonical decimal form of an integer from 0 to 2^32 - 2.\<close>

definition is_array_index :: "string \<Rightarrow> bool" where
  "is_array_index s \<longleftrightarrow>
     s \<noteq> [] \<and> list_all (\<lambda>c. c \<in> set ''0123456789'') s \<and>
     (s = ''0'' \<or> hd s \<noteq> CHR ''0'') \<and> to_number s < 4294967295"

definition Object_keys :: "(string \<times> 'a) list \<Rightarrow> string list" where
  "Object_keys obj =
     (let own = map fst obj
      in sort_key to_number (filter is_array_index own) @
         filter (\<lambda>k. \<not> is_array_index k) own)"

text \<open>
  Reading a property of \<open>undefined\<close> throws a \<open>TypeError\<close>; this is its message for
  the property \<open>p\<close>.
\<close>

definition TypeError_undefined :: "string \<Rightarrow> error" where
  "TypeError_undefined p =
     Error (''Cannot read property '' @ [CHR 0x27] @ p @ [CHR 0x27] @ '' of undefined'')"

section \<open>The environment and the observable calls\<close>

text \<open>
  \<open>process.env\<close> is a lookup from names to strings, \<open>None\<close> standing for
  \<open>undefined\<close>. The program never writes to it; the caller may change it between
  calls, so every operation takes the environment of the moment as an argument.

  The calls the program makes to its collaborators are recorded in a trace: the
  environment lookups, the validator invocations (with the binding's name and the
  looked-up value), and the rule check invocations (with the rule's description).
\<close>

type_synonym env = "string \<Rightarrow> string option"

datatype event =
    EnvLookup string
  | ValidatorCall string "string option"
  | CheckCall string

section \<open>Envar\<close>

text \<open>
  \<open>type Validator<T> = (value: string | undefined) => T\<close>: the validator returns a
  value or throws an error with a message, and what it does depends on the value it
  is given only.
\<close>

type_synonym 'v Validator = "string option \<Rightarrow> error + 'v"

text \<open>The cache is \<open>{ empty: true } | { value: T }\<close>.\<close>

datatype 'v cache = Empty | Value 'v

record 'v Envar =
  name :: string
  validator :: "'v Validator"
  description :: string
  cache :: "'v cache"

text \<open>\<open>new Envar(name, validator, description)\<close>.\<close>

definition Envar_new :: "string \<Rightarrow> 'v Validator \<Rightarrow> string \<Rightarrow> 'v Envar" where
  "Envar_new nm vd ds = \<lparr>name = nm, validator = vd, description = ds, cache = Empty\<rparr>"

text \<open>
  The private method \<open>validate\<close>. When the validator throws, the assignment to the
  cache does not happen.
\<close>

definition Envar_validate ::
  "env \<Rightarrow> 'v Envar \<Rightarrow> event list \<Rightarrow> (error + 'v) \<times> 'v Envar \<times> event list" where
  "Envar_validate en this tr =
     (case cache this of
        Empty \<Rightarrow>
          (let value = en (name this);
               tr' = tr @ [EnvLookup (name this), ValidatorCall (name this) value]
           in case validator this value of
                Inl err \<Rightarrow> (Inl err, this, tr')
              | Inr v \<Rightarrow> (Inr v, this\<lparr>cache := Value v\<rparr>, tr'))
      | Value v \<Rightarrow> (Inr v, this, tr))"

text \<open>The getter \<open>value\<close>.\<close>

definition Envar_value ::
  "env \<Rightarrow> 'v Envar \<Rightarrow> event list \<Rightarrow> (error + 'v) \<times> 'v Envar \<times> event list" where
  "Envar_value en this tr =
     (case Envar_validate en this tr of
        (Inl err, this', tr') \<Rightarrow> (Inl (Error (name this @ '' - '' @ message err)), this', tr')
      | (Inr v, this', tr') \<Rightarrow> (Inr v, this', tr'))"

text \<open>
  A caller that keeps the binding reads its value again and again, possibly under a
  changed environment: one access for each environment of the list, in order.
\<close>

fun accesses ::
  "env list \<Rightarrow> 'v Envar \<Rightarrow> event list \<Rightarrow> (error + 'v) list \<times> 'v Envar \<times> event list" where
  "accesses [] this tr = ([], this, tr)"
| "accesses (en # ens) this tr =
     (case Envar_value en this tr of
        (res, this', tr') \<Rightarrow>
          (case accesses ens this' tr' of
             (ress, this'', tr'') \<Rightarrow> (res # ress, this'', tr'')))"

section \<open>Rule\<close>

text \<open>
  \<open>type PostValidator = () => void\<close>: the check returns or throws an error with a
  message; what it decides may depend on the environment of the moment.
\<close>

type_synonym PostValidator = "env \<Rightarrow> error + unit"

record Rule =
  rule_description :: string
  rule_validator :: PostValidator

definition Rule_new :: "string \<Rightarrow> PostValidator \<Rightarrow> Rule" where
  "Rule_new ds vd = \<lparr>rule_description = ds, rule_validator = vd\<rparr>"

definition Rule_validate :: "env \<Rightarrow> Rule \<Rightarrow> event list \<Rightarrow> (error + unit) \<times> event list" where
  "Rule_validate en this tr =
     (let tr' = tr @ [CheckCall (rule_description this)]
      in case rule_validator this en of
           Inl err \<Rightarrow> (Inl (Error (message err)), tr')
         | Inr u \<Rightarrow> (Inr u, tr'))"

section \<open>Envaridator\<close>

record 'v Envaridator =
  registeredVariables :: "(string \<times> 'v Envar) list"
  postValidations :: "Rule list"

definition Envaridator_new :: "'v Envaridator" where
  "Envaridator_new = \<lparr>registeredVariables = [], postValidations = []\<rparr>"

definition variablesStatus :: "string list \<Rightarrow> string" where
  "variablesStatus failedVariables =
     Array_join nl ((''The following environment variables are invalid:'' @ nl) # failedVariables)"

definition rulesStatus :: "string list \<Rightarrow> string" where
  "rulesStatus failedRules =
     Array_join nl ((''The following validation rules are invalid:'' @ nl) # failedRules)"

text \<open>
  \<open>register\<close>. The guard reads \<open>this.registeredVariables[name]\<close> and compares it with
  \<open>null\<close>. The assignment adds an own property: \<open>AList.update\<close> keeps the place of a
  key that exists and appends a new one.
\<close>

definition register ::
  "string \<Rightarrow> 'v Validator \<Rightarrow> string \<Rightarrow> 'v Envaridator \<Rightarrow> (error + 'v Envar) \<times> 'v Envaridator" where
  "register nm vd ds this =
     (if not_null (get_property (registeredVariables this) nm)
      then (Inl (Error (''Variable '' @ nm @ '' already defined!'')), this)
      else
        (let envar = Envar_new nm vd ds
         in (Inr envar,
             this\<lparr>registeredVariables := AList.update nm envar (registeredVariables this)\<rparr>)))"

definition registerPostValidation ::
  "string \<Rightarrow> PostValidator \<Rightarrow> 'v Envaridator \<Rightarrow> 'v Envaridator" where
  "registerPostValidation ds vd this =
     this\<lparr>postValidations := postValidations this @ [Rule_new ds vd]\<rparr>"

text \<open>
  The first loop of \<open>validate\<close>: for each name, read the binding's \<open>value\<close> inside
  \<open>try\<close>/\<open>catch\<close> and push the message of whatever was thrown. The binding is an
  object held by the registry, so the cache it fills is the registry's. The names
  come from \<open>Object.keys\<close>, so each is an own property and the read finds its
  binding; a read that found nothing would throw a \<open>TypeError\<close> into the same
  \<open>catch\<close>.
\<close>

fun validate_variables ::
  "env \<Rightarrow> string list \<Rightarrow> (string \<times> 'v Envar) list \<Rightarrow> event list \<Rightarrow> string list \<Rightarrow>
   (string \<times> 'v Envar) list \<times> event list \<times> string list" where
  "validate_variables en [] vars tr failedVariables = (vars, tr, failedVariables)"
| "validate_variables en (nm # names) vars tr failedVariables =
     (case map_of vars nm of
        None \<Rightarrow>
          validate_variables en names vars tr
            (failedVariables @ [message (TypeError_undefined ''value'')])
      | Some envar \<Rightarrow>
          (case Envar_value en envar tr of
             (Inl validationError, envar', tr') \<Rightarrow>
               validate_variables en names (AList.update nm envar' vars) tr'
                 (failedVariables @ [message validationError])
           | (Inr v, envar', tr') \<Rightarrow>
               validate_variables en names (AList.update nm envar' vars) tr' failedVariables))"

text \<open>The second loop of \<open>validate\<close>.\<close>

fun validate_rules ::
  "env \<Rightarrow> Rule list \<Rightarrow> event list \<Rightarrow> string list \<Rightarrow> event list \<times> string list" where
  "validate_rules en [] tr failedRules = (tr, failedRules)"
| "validate_rules en (rule # rules) tr failedRules =
     (case Rule_validate en rule tr of
        (Inl validationError, tr') \<Rightarrow>
          validate_rules en rules tr' (failedRules @ [message validationError])
      | (Inr u, tr') \<Rightarrow> validate_rules en rules tr' failedRules)"

definition validate ::
  "env \<Rightarrow> 'v Envaridator \<Rightarrow> event list \<Rightarrow> (error + unit) \<times> 'v Envaridator \<times> event list" where
  "validate en this tr =
     (case validate_variables en (Object_keys (registeredVariables this))
             (registeredVariables this) tr [] of
        (vars', tr1, failedVariables) \<Rightarrow>
          (case (if length (postValidations this) > 0
                 then validate_rules en (postValidations this) tr1 []
                 else (tr1, [])) of
             (tr2, failedRules) \<Rightarrow>
               (let result0 = [];
                    result1 = (if length failedVariables > 0
                               then result0 @ variablesStatus failedVariables else result0);
                    result2 = (if length failedRules > 0
                               then (result1 @ nl @ nl) @ rulesStatus failedRules else result1)
                in (if result2 \<noteq> [] then Inl (Error result2) else Inr (),
                    this\<lparr>registeredVariables := vars'\<rparr>, tr2))))"

text \<open>
  The lines of the describing operations: \<open>Object.keys(...).map(name => ...)\<close> reads
  \<open>this.registeredVariables[name].description\<close>; were the lookup \<open>undefined\<close>, the
  read of \<open>description\<close> would throw out of the operation.
\<close>

fun variable_lines ::
  "(string \<Rightarrow> string \<Rightarrow> string) \<Rightarrow> (string \<times> 'v Envar) list \<Rightarrow> string list \<Rightarrow> error + string list" where
  "variable_lines fmt vars [] = Inr []"
| "variable_lines fmt vars (nm # names) =
     (case map_of vars nm of
        None \<Rightarrow> Inl (TypeError_undefined ''description'')
      | Some envar \<Rightarrow>
          (case variable_lines fmt vars names of
             Inl err \<Rightarrow> Inl err
           | Inr ls \<Rightarrow> Inr (fmt nm (description envar) # ls)))"

definition describeAll ::
  "(string \<Rightarrow> string \<Rightarrow> int) \<Rightarrow> 'v Envaridator \<Rightarrow> event list \<Rightarrow>
   (error + string) \<times> 'v Envaridator \<times> event list" where
  "describeAll localeCompare this tr =
     (case variable_lines (\<lambda>nm ds. nm @ '' - '' @ ds) (registeredVariables this)
             (Object_keys (registeredVariables this)) of
        Inl err \<Rightarrow> (Inl err, this, tr)
      | Inr ls \<Rightarrow>
          (let envars = Array_sort localeCompare ls;
               rules = Array_sort localeCompare (map rule_description (postValidations this))
           in (Inr (Array_join nl (envars @ rules)), this, tr)))"

definition describeAllMarkdown ::
  "(string \<Rightarrow> string \<Rightarrow> int) \<Rightarrow> 'v Envaridator \<Rightarrow> event list \<Rightarrow>
   (error + string) \<times> 'v Envaridator \<times> event list" where
  "describeAllMarkdown localeCompare this tr =
     (case variable_lines (\<lambda>nm ds. ''**'' @ nm @ ''** - '' @ ds) (registeredVariables this)
             (Object_keys (registeredVariables this)) of
        Inl err \<Rightarrow> (Inl err, this, tr)
      | Inr ls \<Rightarrow>
          (let envars = Array_join nl (Array_sort localeCompare ls);
               rules = Array_join nl
                         (Array_sort localeCompare (map rule_description (postValidations this)));
               result0 = [];
               result1 = (if length envars > 0 then result0 @ [''#Variables'', envars] else result0);
               result2 = (if length rules > 0
                          then result1 @ [''#Post validation rules'', rules] else result1)
           in (Inr (Array_join nl result2), this, tr)))"

section \<open>Vocabulary for stating the properties\<close>

text \<open>
  The registry holds at most one binding for a name, and the binding stored under a
  name carries that name.
\<close>

definition registry_ok :: "(string \<times> 'v Envar) list \<Rightarrow> bool" where
  "registry_ok vars \<longleftrightarrow> distinct (map fst vars) \<and> list_all (\<lambda>(k, e). name e = k) vars"

text \<open>
  What one access to the value of the binding stored under \<open>k\<close> amounts to, under the
  environment \<open>en\<close>, in terms of the validator's answer: the report line it causes
  when it fails, the calls it makes, and the binding it leaves behind. Lemma
  \<open>Envar_value_step\<close> shows that this is what the getter \<open>value\<close> does.
\<close>

definition failure_line :: "env \<Rightarrow> (string \<times> 'v Envar) list \<Rightarrow> string \<Rightarrow> string option" where
  "failure_line en vars k =
     (case map_of vars k of
        None \<Rightarrow> None
      | Some e \<Rightarrow>
          (case cache e of
             Value v \<Rightarrow> None
           | Empty \<Rightarrow>
               (case validator e (en k) of
                  Inl err \<Rightarrow> Some (k @ '' - '' @ message err)
                | Inr v \<Rightarrow> None)))"

definition access_events :: "env \<Rightarrow> (string \<times> 'v Envar) list \<Rightarrow> string \<Rightarrow> event list" where
  "access_events en vars k =
     (case map_of vars k of
        None \<Rightarrow> []
      | Some e \<Rightarrow>
          (case cache e of
             Value v \<Rightarrow> []
           | Empty \<Rightarrow> [EnvLookup k, ValidatorCall k (en k)]))"

definition after_access :: "env \<Rightarrow> 'v Envar \<Rightarrow> 'v Envar" where
  "after_access en e =
     (case cache e of
        Value v \<Rightarrow> e
      | Empty \<Rightarrow>
          (case validator e (en (name e)) of
             Inl err \<Rightarrow> e
           | Inr v \<Rightarrow> e\<lparr>cache := Value v\<rparr>))"

text \<open>The message a rule contributes when its check throws.\<close>

definition rule_failure :: "env \<Rightarrow> Rule \<Rightarrow> string option" where
  "rule_failure en rule =
     (case rule_validator rule en of Inl err \<Rightarrow> Some (message err) | Inr u \<Rightarrow> None)"

text \<open>
  The text of the aggregated report for the lines of the failing bindings and the
  messages of the failing rules.
\<close>

definition report :: "string list \<Rightarrow> string list \<Rightarrow> string" where
  "report fv fr =
     (if fv = [] then [] else
        ''The following environment variables are invalid:'' @ nl @ nl @ Array_join nl fv) @
     (if fr = [] then [] else
        nl @ nl @ ''The following validation rules are invalid:'' @ nl @ nl @ Array_join nl fr)"

section \<open>Example data\<close>

text \<open>
  The environment of the README's example, and a validator that demands presence, in
  the manner of \<open>toi.required().and(toi.str.is())\<close>.
\<close>

definition example_env :: env where
  "example_env =
     map_of [(''CORRECT_URL'', ''https://google.com''),
             (''WRONG_URL'', ''htttps://google.com''),
             (''SOME_VARIABLE'', ''I exist!'')]"

definition required :: "string Validator" where
  "required value =
     (case value of
        None \<Rightarrow> Inl (Error ''value is null or undefined'')
      | Some s \<Rightarrow> Inr s)"

text \<open>A validator in the manner of \<open>toix.str.url({ protocol: "https:" })\<close>.\<close>

definition https_url :: "string Validator" where
  "https_url value =
     (case value of
        None \<Rightarrow> Inl (Error ''value is null or undefined'')
      | Some s \<Rightarrow> if take 6 s = ''https:'' then Inr s else Inl (Error ''Invalid protocol: https:''))"

text \<open>Two rule checks.\<close>

definition some_variable_is_set :: PostValidator where
  "some_variable_is_set en =
     (case en ''SOME_VARIABLE'' of
        None \<Rightarrow> Inl (Error ''SOME_VARIABLE is missing'')
      | Some s \<Rightarrow> Inr ())"

definition urls_agree :: PostValidator where
  "urls_agree en =
     (if en ''CORRECT_URL'' = en ''WRONG_URL'' then Inr ()
      else Inl (Error ''the two urls differ''))"

text \<open>
  The registry of the README's example with a rule that passes, the same with a second
  rule that fails, and a registry whose two names are array indices.
\<close>

definition readme_registry :: "string Envaridator" where
  "readme_registry =
     registerPostValidation ''some variable is set'' some_variable_is_set
       (snd (register ''SOME_VARIABLE'' required ''some text''
         (snd (register ''V@R1ABL3'' required ''must be there''
           (snd (register ''WRONG_URL'' https_url ''another url''
             (snd (register ''CORRECT_URL'' https_url ''an url'' Envaridator_new))))))))"

definition mixed_registry :: "string Envaridator" where
  "mixed_registry = registerPostValidation ''urls agree'' urls_agree readme_registry"

definition numeric_registry :: "string Envaridator" where
  "numeric_registry =
     snd (register ''1'' required ''second''
       (snd (register ''2'' required ''first'' Envaridator_new)))"

text \<open>
  A consistent comparison for the examples: the lexicographic order of the code
  units.
\<close>

definition code_units :: "string \<Rightarrow> nat list" where
  "code_units s = map of_char s"

definition compare_code_units :: "string \<Rightarrow> string \<Rightarrow> int" where
  "compare_code_units a b =
     (if code_units a = code_units b then 0
      else if ord_class.lexordp (code_units a) (code_units b) then - 1 else 1)"

text \<open>
  The comparison that \<open>String.prototype.localeCompare\<close> makes on a host with the
  usual collation (the root collation of CLDR, as Node ships it), for strings of
  ASCII letters, digits, spaces and hyphens: the strings are compared without
  regard to case first, and strings that differ in case only are told apart by the
  first such difference, the lowercase letter first. So \<open>a\<close> comes before \<open>B\<close>, which
  the order of the code units has the other way round.
\<close>

definition fold_case :: "nat \<Rightarrow> nat" where
  "fold_case n = (if 65 \<le> n \<and> n \<le> 90 then n + 32 else n)"

definition primary_key :: "string \<Rightarrow> nat list" where
  "primary_key s = map fold_case (code_units s)"

definition case_key :: "string \<Rightarrow> nat list" where
  "case_key s = map (\<lambda>n. if 65 \<le> n \<and> n \<le> 90 then 1 else 0) (code_units s)"

definition localeCompare_ascii :: "string \<Rightarrow> string \<Rightarrow> int" where
  "localeCompare_ascii a b =
     (if ord_class.lexordp (primary_key a) (primary_key b) then - 1
      else if ord_class.lexordp (primary_key b) (primary_key a) then 1
      else if ord_class.lexordp (case_key a) (case_key b) then - 1
      else if ord_class.lexordp (case_key b) (case_key a) then 1
      else 0)"

text \<open>A registry with an uppercase and a lowercase name.\<close>

definition letter_case_registry :: "string Envaridator" where
  "letter_case_registry =
     snd (register ''a'' required ''x'' (snd (register ''B'' required ''y'' Envaridator_new)))"

text \<open>A registry whose only rule has the empty description.\<close>

definition blank_rule_registry :: "string Envaridator" where
  "blank_rule_registry = registerPostValidation '''' (\<lambda>en. Inr ()) Envaridator_new"

section \<open>Properties of a binding\<close>

lemma Envar_value_cached:
  "cache this = Value v \<Longrightarrow> Envar_value en this tr = (Inr v, this, tr)"
  by (simp add: Envar_value_def Envar_validate_def)

lemma Envar_value_fails:
  "cache this = Empty \<Longrightarrow> validator this (en (name this)) = Inl err \<Longrightarrow>
   Envar_value en this tr =
     (Inl (Error (name this @ '' - '' @ message err)), this,
      tr @ [EnvLookup (name this), ValidatorCall (name this) (en (name this))])"
  by (simp add: Envar_value_def Envar_validate_def)

lemma Envar_value_succeeds:
  "cache this = Empty \<Longrightarrow> validator this (en (name this)) = Inr v \<Longrightarrow>
   Envar_value en this tr =
     (Inr v, this\<lparr>cache := Value v\<rparr>,
      tr @ [EnvLookup (name this), ValidatorCall (name this) (en (name this))])"
  by (simp add: Envar_value_def Envar_validate_def)

lemma Envar_value_Inr_cache:
  "Envar_value en this tr = (Inr v, this', tr') \<Longrightarrow> cache this' = Value v"
  by (auto simp: Envar_value_def Envar_validate_def Let_def split: cache.splits sum.splits)

lemma Envar_value_Inl_cases:
  "fst (Envar_value en this tr) = Inl e \<Longrightarrow>
   cache this = Empty \<and> (\<exists>err. validator this (en (name this)) = Inl err)"
  by (auto simp: Envar_value_def Envar_validate_def Let_def split: cache.splits sum.splits)

lemma accesses_cached:
  "cache this = Value v \<Longrightarrow> accesses ens this tr = (replicate (length ens) (Inr v), this, tr)"
  by (induction ens) (simp_all add: Envar_value_cached)

lemma accesses_failing:
  assumes "cache this = Empty" and "\<forall>en\<in>set ens. isl (validator this (en (name this)))"
  shows "accesses ens this tr =
     (map (\<lambda>en. Inl (Error (name this @ '' - '' @
                   message (projl (validator this (en (name this))))))) ens,
      this,
      tr @ concat (map (\<lambda>en. [EnvLookup (name this),
                               ValidatorCall (name this) (en (name this))]) ens))"
  using assms
proof (induction ens arbitrary: tr)
  case Nil
  then show ?case by simp
next
  case (Cons en ens)
  from Cons.prems obtain err where e: "validator this (en (name this)) = Inl err"
    by (auto simp: isl_def)
  have step: "Envar_value en this tr =
     (Inl (Error (name this @ '' - '' @ message err)), this,
      tr @ [EnvLookup (name this), ValidatorCall (name this) (en (name this))])"
    using Cons.prems(1) e by (rule Envar_value_fails)
  show ?case
    using Cons.prems
      Cons.IH [of "tr @ [EnvLookup (name this), ValidatorCall (name this) (en (name this))]"]
    by (simp add: step e)
qed

text \<open>
  C3. Once an access to a binding's value has succeeded with \<open>v\<close>, every later access
  returns \<open>v\<close> again, whatever the environment has become: the binding stays as it is
  and the trace gains nothing, so neither the environment is read nor the validator
  called.
\<close>

theorem memoized_value_is_reused:
  assumes "Envar_value en this tr = (Inr v, this', tr')"
  shows "accesses ens this' tr2 = (replicate (length ens) (Inr v), this', tr2)"
  using assms by (simp add: accesses_cached Envar_value_Inr_cache)

theorem memoized_value_is_reused_witness:
  "Envar_value example_env (Envar_new ''SOME_VARIABLE'' required ''d'') [] =
     (Inr ''I exist!'',
      (Envar_new ''SOME_VARIABLE'' required ''d'')\<lparr>cache := Value ''I exist!''\<rparr>,
      [EnvLookup ''SOME_VARIABLE'', ValidatorCall ''SOME_VARIABLE'' (Some ''I exist!'')]) \<and>
   accesses [\<lambda>k. None, example_env]
     ((Envar_new ''SOME_VARIABLE'' required ''d'')\<lparr>cache := Value ''I exist!''\<rparr>) [] =
     ([Inr ''I exist!'', Inr ''I exist!''],
      (Envar_new ''SOME_VARIABLE'' required ''d'')\<lparr>cache := Value ''I exist!''\<rparr>, [])"
proof -
  have h: "Envar_value example_env (Envar_new ''SOME_VARIABLE'' required ''d'') [] =
     (Inr ''I exist!'',
      (Envar_new ''SOME_VARIABLE'' required ''d'')\<lparr>cache := Value ''I exist!''\<rparr>,
      [EnvLookup ''SOME_VARIABLE'', ValidatorCall ''SOME_VARIABLE'' (Some ''I exist!'')])"
    by (simp add: Envar_value_def Envar_validate_def Envar_new_def example_env_def required_def)
  show ?thesis
    using h memoized_value_is_reused [OF h, of "[\<lambda>k. None, example_env]" "[]"]
    by simp
qed

text \<open>
  C4. When one or more accesses to a binding's value fail, the binding is unevaluated
  and stays so: each of the accesses reads the environment and calls the validator
  again, and fails with the validator's message behind the name. The first access
  under an environment the validator accepts returns the value and fills the cache.
\<close>

theorem failed_access_is_not_memoized:
  assumes "ens \<noteq> []"
    and "\<forall>en\<in>set ens. isl (fst (Envar_value en this tr0))"
  shows "cache this = Empty \<and>
    accesses ens this tr =
     (map (\<lambda>en. Inl (Error (name this @ '' - '' @
                   message (projl (validator this (en (name this))))))) ens,
      this,
      tr @ concat (map (\<lambda>en. [EnvLookup (name this),
                               ValidatorCall (name this) (en (name this))]) ens)) \<and>
    (validator this (en' (name this)) = Inr v \<longrightarrow>
      Envar_value en' this tr' =
        (Inr v, this\<lparr>cache := Value v\<rparr>,
         tr' @ [EnvLookup (name this), ValidatorCall (name this) (en' (name this))]))"
proof -
  from assms(1) obtain en0 where "en0 \<in> set ens" by (cases ens) auto
  with assms(2) obtain e0 where "fst (Envar_value en0 this tr0) = Inl e0"
    by (auto simp: isl_def)
  then have c: "cache this = Empty" by (auto dest: Envar_value_Inl_cases)
  have "\<forall>en\<in>set ens. isl (validator this (en (name this)))"
  proof
    fix en assume "en \<in> set ens"
    with assms(2) obtain e where "fst (Envar_value en this tr0) = Inl e"
      by (auto simp: isl_def)
    then show "isl (validator this (en (name this)))"
      by (auto dest: Envar_value_Inl_cases)
  qed
  with c have a: "accesses ens this tr =
     (map (\<lambda>en. Inl (Error (name this @ '' - '' @
                   message (projl (validator this (en (name this))))))) ens,
      this,
      tr @ concat (map (\<lambda>en. [EnvLookup (name this),
                               ValidatorCall (name this) (en (name this))]) ens))"
    by (rule accesses_failing)
  from c a show ?thesis by (simp add: Envar_value_succeeds)
qed

theorem failed_access_is_not_memoized_witness:
  "isl (fst (Envar_value (\<lambda>k. None) (Envar_new ''V@R1ABL3'' required ''d'') [])) \<and>
   accesses [\<lambda>k. None, \<lambda>k. None] (Envar_new ''V@R1ABL3'' required ''d'') [] =
     ([Inl (Error ''V@R1ABL3 - value is null or undefined''),
       Inl (Error ''V@R1ABL3 - value is null or undefined'')],
      Envar_new ''V@R1ABL3'' required ''d'',
      [EnvLookup ''V@R1ABL3'', ValidatorCall ''V@R1ABL3'' None,
       EnvLookup ''V@R1ABL3'', ValidatorCall ''V@R1ABL3'' None]) \<and>
   Envar_value (\<lambda>k. Some ''set'') (Envar_new ''V@R1ABL3'' required ''d'') [] =
     (Inr ''set'', (Envar_new ''V@R1ABL3'' required ''d'')\<lparr>cache := Value ''set''\<rparr>,
      [EnvLookup ''V@R1ABL3'', ValidatorCall ''V@R1ABL3'' (Some ''set'')])"
proof -
  have h1: "[\<lambda>k. None, \<lambda>k. None] \<noteq> ([] :: env list)" by simp
  have h2: "\<forall>en\<in>set [\<lambda>k. None, \<lambda>k. None].
      isl (fst (Envar_value en (Envar_new ''V@R1ABL3'' required ''d'') []))"
    by (simp add: Envar_value_def Envar_validate_def Envar_new_def required_def)
  have v: "validator (Envar_new ''V@R1ABL3'' required ''d'')
             ((\<lambda>k. Some ''set'') (name (Envar_new ''V@R1ABL3'' required ''d''))) = Inr ''set''"
    by (simp add: Envar_new_def required_def)
  from failed_access_is_not_memoized [OF h1 h2, of "[]" "\<lambda>k. Some ''set''" "''set''" "[]"] v h2
  show ?thesis
    by (simp add: Envar_new_def required_def)
qed

text \<open>
  C7. When the validator of an unevaluated binding throws an error with message
  \<open>msg\<close>, reading the binding's value throws an error whose message is the binding's
  name, \<open>" - "\<close>, and \<open>msg\<close>.
\<close>

theorem value_error_is_name_prefixed:
  assumes "cache this = Empty"
    and "validator this (en (name this)) = Inl (Error msg)"
  shows "fst (Envar_value en this tr) = Inl (Error (name this @ '' - '' @ msg))"
  using assms by (simp add: Envar_value_def Envar_validate_def)

theorem value_error_is_name_prefixed_witness:
  "cache (Envar_new ''V@R1ABL3'' required ''d'') = Empty \<and>
   validator (Envar_new ''V@R1ABL3'' required ''d'')
     (example_env (name (Envar_new ''V@R1ABL3'' required ''d''))) =
     Inl (Error ''value is null or undefined'') \<and>
   fst (Envar_value example_env (Envar_new ''V@R1ABL3'' required ''d'') []) =
     Inl (Error ''V@R1ABL3 - value is null or undefined'')"
proof -
  have h1: "cache (Envar_new ''V@R1ABL3'' required ''d'') = Empty"
    by (simp add: Envar_new_def)
  have h2: "validator (Envar_new ''V@R1ABL3'' required ''d'')
     (example_env (name (Envar_new ''V@R1ABL3'' required ''d''))) =
     Inl (Error ''value is null or undefined'')"
    by (simp add: Envar_new_def required_def example_env_def)
  have n: "name (Envar_new ''V@R1ABL3'' required ''d'') = ''V@R1ABL3''"
    by (simp add: Envar_new_def)
  from value_error_is_name_prefixed
         [where this = "Envar_new ''V@R1ABL3'' required ''d''" and en = example_env
            and msg = "''value is null or undefined''" and tr = "[]"] h1 h2 n
  show ?thesis by simp
qed

section \<open>Properties of the runtime pieces\<close>

lemma mset_Object_keys: "mset (Object_keys vars) = mset (map fst vars)"
  by (simp add: Object_keys_def Let_def)

lemma set_Object_keys: "set (Object_keys vars) = fst ` set vars"
  by (metis mset_Object_keys set_mset_mset set_map)

lemma distinct_Object_keys: "distinct (map fst vars) \<Longrightarrow> distinct (Object_keys vars)"
  by (metis mset_Object_keys mset_eq_imp_distinct_iff)

lemma Object_keys_creation_order:
  "\<not> list_ex is_array_index (map fst vars) \<Longrightarrow> Object_keys vars = map fst vars"
  by (simp add: Object_keys_def Let_def list_ex_iff filter_empty_conv)

lemma update_new_key: "map_of al k = None \<Longrightarrow> AList.update k v al = al @ [(k, v)]"
  by (induction al) (auto split: if_splits)

lemma not_null_get_property:
  "not_null (get_property obj nm) \<longleftrightarrow> map_of obj nm \<noteq> None \<or> nm \<in> set Object_prototype_keys"
  by (simp add: get_property_def split: option.splits)

lemma Array_join_header:
  "xs \<noteq> [] \<Longrightarrow> Array_join sep ((h @ sep) # xs) = h @ sep @ sep @ Array_join sep xs"
  by (cases xs) simp_all

section \<open>Properties of registration\<close>

lemma register_new_name:
  assumes "map_of (registeredVariables this) nm = None" and "nm \<notin> set Object_prototype_keys"
  shows "register nm vd ds this =
     (Inr (Envar_new nm vd ds),
      this\<lparr>registeredVariables := registeredVariables this @ [(nm, Envar_new nm vd ds)]\<rparr>)"
  using assms by (simp add: register_def not_null_get_property update_new_key Let_def)

lemma register_known_name:
  assumes "map_of (registeredVariables this) nm = Some e"
  shows "register nm vd ds this =
     (Inl (Error (''Variable '' @ nm @ '' already defined!'')), this)"
  using assms by (simp add: register_def not_null_get_property)

lemma register_two_names:
  assumes "nm1 \<noteq> nm2"
    and "map_of (registeredVariables this) nm1 = None" and "nm1 \<notin> set Object_prototype_keys"
    and "map_of (registeredVariables this) nm2 = None" and "nm2 \<notin> set Object_prototype_keys"
  shows "register nm1 vd1 ds1 this =
           (Inr (Envar_new nm1 vd1 ds1),
            this\<lparr>registeredVariables :=
                    registeredVariables this @ [(nm1, Envar_new nm1 vd1 ds1)]\<rparr>) \<and>
         register nm2 vd2 ds2 (snd (register nm1 vd1 ds1 this)) =
           (Inr (Envar_new nm2 vd2 ds2),
            this\<lparr>registeredVariables :=
                    registeredVariables this @
                    [(nm1, Envar_new nm1 vd1 ds1), (nm2, Envar_new nm2 vd2 ds2)]\<rparr>)"
  using assms by (simp add: register_new_name)

lemma register_same_name_twice:
  assumes "register nm vd1 ds1 this = (Inr envar, this')"
  shows "register nm vd2 ds2 this' =
           (Inl (Error (''Variable '' @ nm @ '' already defined!'')), this') \<and>
         map_of (registeredVariables this') nm = Some envar \<and>
         envar = Envar_new nm vd1 ds1"
proof -
  from assms have n: "map_of (registeredVariables this) nm = None"
      and p: "nm \<notin> set Object_prototype_keys"
    by (auto simp: register_def not_null_get_property split: if_splits)
  from assms have "envar = Envar_new nm vd1 ds1"
      and "this' = this\<lparr>registeredVariables := registeredVariables this @ [(nm, Envar_new nm vd1 ds1)]\<rparr>"
    unfolding register_new_name [OF n p] by auto
  moreover from this n have "map_of (registeredVariables this') nm = Some envar"
    by (simp add: map_add_def)
  ultimately show ?thesis
    by (simp add: register_known_name)
qed

lemma registry_ok_register:
  assumes "registry_ok (registeredVariables this)"
  shows "registry_ok (registeredVariables (snd (register nm vd ds this)))"
proof (cases "not_null (get_property (registeredVariables this) nm)")
  case True
  then show ?thesis using assms by (simp add: register_def)
next
  case False
  then have n: "map_of (registeredVariables this) nm = None" and p: "nm \<notin> set Object_prototype_keys"
    by (auto simp: not_null_get_property)
  from n have "nm \<notin> fst ` set (registeredVariables this)"
    by (simp add: map_of_eq_None_iff)
  then show ?thesis
    using assms by (simp add: register_new_name [OF n p] registry_ok_def Envar_new_def)
qed

text \<open>
  C2. The name \<open>toString\<close> has never been registered, yet \<open>register\<close> rejects it as
  already defined, and so for every property name of \<open>Object.prototype\<close>: the guard of
  \<open>register\<close> reads the property through the prototype chain. For all other names
  the claim holds, see \<open>register_two_names\<close> and \<open>register_same_name_twice\<close>.
\<close>

theorem register_rejects_inherited_name:
  "register ''toString'' vd ds Envaridator_new =
     (Inl (Error ''Variable toString already defined!''), Envaridator_new)"
  by (simp add: register_def get_property_def Envaridator_new_def Object_prototype_keys_def)

section \<open>The validation pass\<close>

lemma name_after_access [simp]: "name (after_access en e) = name e"
  by (simp add: after_access_def split: cache.splits sum.splits)

lemma map_filter_cong_set:
  "(\<And>x. x \<in> set xs \<Longrightarrow> f x = g x) \<Longrightarrow> List.map_filter f xs = List.map_filter g xs"
  by (induction xs) (simp_all add: List.map_filter_simps split: option.splits)

lemma concat_map_cong_set:
  "(\<And>x. x \<in> set xs \<Longrightarrow> f x = g x) \<Longrightarrow> concat (map f xs) = concat (map g xs)"
  by (induction xs) simp_all

lemma map_filter_eq_Nil_iff:
  "List.map_filter f xs = [] \<longleftrightarrow> (\<forall>x\<in>set xs. f x = None)"
  by (induction xs) (auto simp: List.map_filter_simps split: option.splits)

lemma failure_line_key:
  "failure_line en vars k = Some l \<Longrightarrow> k \<in> fst ` set vars"
  by (auto simp: failure_line_def image_iff split: option.splits dest!: map_of_SomeD) force

lemma Envar_value_step:
  assumes "map_of vars k = Some e" and "name e = k"
  shows "Envar_value en e tr =
     (case failure_line en vars k of
        Some l \<Rightarrow> (Inl (Error l), after_access en e, tr @ access_events en vars k)
      | None \<Rightarrow> (Inr (case cache (after_access en e) of Value v \<Rightarrow> v),
                 after_access en e, tr @ access_events en vars k))"
  using assms
  by (auto simp: Envar_value_def Envar_validate_def failure_line_def access_events_def
       after_access_def Let_def split: cache.splits sum.splits)

lemma map_update_visited:
  assumes "distinct (map fst vars)" and "map_of vars nm = Some e" and "nm \<notin> set names"
  shows "map (\<lambda>(k, e). if k \<in> set names then (k, f e) else (k, e)) (AList.update nm (f e) vars) =
         map (\<lambda>(k, e). if k \<in> set (nm # names) then (k, f e) else (k, e)) vars"
  using assms
proof (induction vars)
  case Nil
  then show ?case by simp
next
  case (Cons p vars)
  show ?case
  proof (cases "fst p = nm")
    case True
    with Cons.prems have "snd p = e" by (cases p) simp
    moreover from True Cons.prems(1) have "nm \<notin> fst ` set vars" by simp
    then have "\<forall>q\<in>set vars. fst q \<noteq> nm" by (auto simp: image_iff)
    then have "map (\<lambda>(k, e). if k \<in> set names then (k, f e) else (k, e)) vars =
               map (\<lambda>(k, e). if k \<in> set (nm # names) then (k, f e) else (k, e)) vars"
      by (intro map_cong) auto
    ultimately show ?thesis using True Cons.prems(3) by (cases p) simp
  next
    case False
    with Cons show ?thesis by (cases p) auto
  qed
qed

lemma registry_ok_update:
  assumes "registry_ok vars" and "map_of vars nm = Some e" and "name e' = nm"
  shows "registry_ok (AList.update nm e' vars)"
proof -
  from assms(2) have "nm \<in> fst ` set vars" by (metis map_of_eq_None_iff option.distinct(1))
  then have "map fst (AList.update nm e' vars) = map fst vars"
    by (simp add: update_keys)
  moreover have "list_all (\<lambda>(k, e). name e = k) (AList.update nm e' vars)"
    using assms(1,3) by (induction vars) (auto simp: registry_ok_def)
  ultimately show ?thesis using assms(1) by (simp add: registry_ok_def)
qed

lemma validate_variables_char:
  assumes "registry_ok vars" and "distinct names" and "set names \<subseteq> fst ` set vars"
  shows "validate_variables en names vars tr fv =
     (map (\<lambda>(k, e). if k \<in> set names then (k, after_access en e) else (k, e)) vars,
      tr @ concat (map (access_events en vars) names),
      fv @ List.map_filter (failure_line en vars) names)"
  using assms
proof (induction names arbitrary: vars tr fv)
  case Nil
  have "map (\<lambda>(k, e). (k, e)) vars = vars" by (induction vars) auto
  then show ?case by (simp add: List.map_filter_simps)
next
  case (Cons nm names)
  from Cons.prems(3) obtain e where e: "map_of vars nm = Some e"
    by (metis list.set_intros(1) map_of_eq_None_iff not_None_eq subsetD)
  with Cons.prems(1) have nme: "name e = nm"
    by (auto simp: registry_ok_def list_all_iff dest!: map_of_SomeD)
  let ?e' = "after_access en e"
  let ?vars1 = "AList.update nm ?e' vars"
  have ok1: "registry_ok ?vars1"
    using Cons.prems(1) e by (rule registry_ok_update) (simp add: nme)
  have keys1: "fst ` set ?vars1 = fst ` set vars"
    using e by (metis dom_update insert_absorb insert_is_Un map_of_eq_None_iff option.distinct(1))
  have nm_notin: "nm \<notin> set names" and dn: "distinct names"
    using Cons.prems(2) by auto
  have same: "\<And>k. k \<in> set names \<Longrightarrow> map_of ?vars1 k = map_of vars k"
    using nm_notin by (auto simp: update_conv')
  have fl: "List.map_filter (failure_line en ?vars1) names = List.map_filter (failure_line en vars) names"
    by (rule map_filter_cong_set) (simp add: failure_line_def same)
  have ev: "concat (map (access_events en ?vars1) names) = concat (map (access_events en vars) names)"
    by (rule concat_map_cong_set) (simp add: access_events_def same)
  have IH: "\<And>tr fv. validate_variables en names ?vars1 tr fv =
     (map (\<lambda>(k, e). if k \<in> set names then (k, after_access en e) else (k, e)) ?vars1,
      tr @ concat (map (access_events en vars) names),
      fv @ List.map_filter (failure_line en vars) names)"
    using Cons.IH [OF ok1 dn] Cons.prems(3) keys1 fl ev by simp
  have vs: "map (\<lambda>(k, e). if k \<in> set names then (k, after_access en e) else (k, e)) ?vars1 =
            map (\<lambda>(k, e). if k \<in> set (nm # names) then (k, after_access en e) else (k, e)) vars"
    using Cons.prems(1) e nm_notin by (intro map_update_visited) (simp_all add: registry_ok_def)
  show ?case
  proof (cases "failure_line en vars nm")
    case None
    then show ?thesis
      using e IH vs by (simp add: Envar_value_step [OF e nme] List.map_filter_simps del: set_simps)
  next
    case (Some l)
    then show ?thesis
      using e IH vs by (simp add: Envar_value_step [OF e nme] List.map_filter_simps del: set_simps)
  qed
qed

lemma validate_rules_char:
  "validate_rules en rules tr fr =
     (tr @ map (\<lambda>rule. CheckCall (rule_description rule)) rules,
      fr @ List.map_filter (rule_failure en) rules)"
  by (induction rules arbitrary: tr fr)
     (auto simp: Rule_validate_def rule_failure_def Let_def List.map_filter_simps
           split: sum.splits)

lemma variablesStatus_eq:
  "fv \<noteq> [] \<Longrightarrow> variablesStatus fv =
     ''The following environment variables are invalid:'' @ nl @ nl @ Array_join nl fv"
  unfolding variablesStatus_def by (rule Array_join_header)

lemma rulesStatus_eq:
  "fr \<noteq> [] \<Longrightarrow> rulesStatus fr =
     ''The following validation rules are invalid:'' @ nl @ nl @ Array_join nl fr"
  unfolding rulesStatus_def by (rule Array_join_header)

lemma validate_char:
  assumes "registry_ok (registeredVariables this)"
  shows "validate en this tr =
     (if List.map_filter (failure_line en (registeredVariables this))
           (Object_keys (registeredVariables this)) = [] \<and>
         List.map_filter (rule_failure en) (postValidations this) = []
      then Inr ()
      else Inl (Error (report
             (List.map_filter (failure_line en (registeredVariables this))
                (Object_keys (registeredVariables this)))
             (List.map_filter (rule_failure en) (postValidations this)))),
      this\<lparr>registeredVariables :=
             map (\<lambda>(k, e). (k, after_access en e)) (registeredVariables this)\<rparr>,
      tr @ concat (map (access_events en (registeredVariables this))
                     (Object_keys (registeredVariables this))) @
           map (\<lambda>rule. CheckCall (rule_description rule)) (postValidations this))"
proof -
  let ?vars = "registeredVariables this"
  have d: "distinct (Object_keys ?vars)"
    using assms by (simp add: registry_ok_def distinct_Object_keys)
  have s: "set (Object_keys ?vars) \<subseteq> fst ` set ?vars"
    by (simp add: set_Object_keys)
  have m: "map (\<lambda>(k, e). if k \<in> set (Object_keys ?vars) then (k, after_access en e) else (k, e)) ?vars =
           map (\<lambda>(k, e). (k, after_access en e)) ?vars"
    by (intro map_cong) (force simp: set_Object_keys)+
  have nlne: "nl \<noteq> []" by (simp add: nl_def)
  show ?thesis
    unfolding validate_def validate_variables_char [OF assms d s] m
    by (cases "postValidations this")
       (simp_all add: validate_rules_char Let_def report_def variablesStatus_eq rulesStatus_eq
          nl_def List.map_filter_simps)
qed

text \<open>
  The registry stays well formed: it is so when created, and registering, adding a
  rule and validating keep it so (for \<open>register\<close> see \<open>registry_ok_register\<close>).
\<close>

lemma registry_ok_new: "registry_ok (registeredVariables Envaridator_new)"
  by (simp add: Envaridator_new_def registry_ok_def)

lemma registry_ok_registerPostValidation:
  "registry_ok (registeredVariables this) \<Longrightarrow>
   registry_ok (registeredVariables (registerPostValidation ds vd this))"
  by (simp add: registerPostValidation_def)

lemma registry_ok_validate:
  assumes "registry_ok (registeredVariables this)"
  shows "registry_ok (registeredVariables (fst (snd (validate en this tr))))"
proof -
  have "(fst \<circ> (\<lambda>(k, e). (k, after_access en e))) = (fst :: string \<times> 'a Envar \<Rightarrow> string)"
    by (auto simp: fun_eq_iff)
  then have k: "map fst (map (\<lambda>(k, e). (k, after_access en e)) (registeredVariables this)) =
        map fst (registeredVariables this)"
    by simp
  have n: "list_all (\<lambda>(k, e). name e = k)
                   (map (\<lambda>(k, e). (k, after_access en e)) (registeredVariables this))"
    using assms by (auto simp: registry_ok_def list_all_iff)
  have "registry_ok (map (\<lambda>(k, e). (k, after_access en e)) (registeredVariables this))"
    unfolding registry_ok_def k using assms n by (simp add: registry_ok_def)
  then show ?thesis
    unfolding validate_char [OF assms] by simp
qed

section \<open>The example registries\<close>

lemma readme_registry_eq:
  "readme_registry =
     \<lparr>registeredVariables =
        [(''CORRECT_URL'', Envar_new ''CORRECT_URL'' https_url ''an url''),
         (''WRONG_URL'', Envar_new ''WRONG_URL'' https_url ''another url''),
         (''V@R1ABL3'', Envar_new ''V@R1ABL3'' required ''must be there''),
         (''SOME_VARIABLE'', Envar_new ''SOME_VARIABLE'' required ''some text'')],
      postValidations = [Rule_new ''some variable is set'' some_variable_is_set]\<rparr>"
  by (simp add: readme_registry_def register_def registerPostValidation_def Envaridator_new_def
        get_property_def Object_prototype_keys_def Let_def)

lemma numeric_registry_eq:
  "numeric_registry =
     \<lparr>registeredVariables =
        [(''2'', Envar_new ''2'' required ''first''),
         (''1'', Envar_new ''1'' required ''second'')],
      postValidations = []\<rparr>"
  by (simp add: numeric_registry_def register_def Envaridator_new_def
        get_property_def Object_prototype_keys_def Let_def)

lemma is_array_index_1: "is_array_index ''1''" and is_array_index_2: "is_array_index ''2''"
  by (simp_all add: is_array_index_def to_number_def digit_value_def)

lemma Object_keys_numeric: "Object_keys (registeredVariables numeric_registry) = [''1'', ''2'']"
  by (simp add: numeric_registry_eq Object_keys_def Let_def is_array_index_1 is_array_index_2
        to_number_def digit_value_def)

lemma not_array_index_readme:
  "\<not> is_array_index ''CORRECT_URL''" "\<not> is_array_index ''WRONG_URL''"
  "\<not> is_array_index ''V@R1ABL3''" "\<not> is_array_index ''SOME_VARIABLE''"
  by (simp_all add: is_array_index_def)

lemma Object_keys_readme:
  "Object_keys (registeredVariables readme_registry) =
     [''CORRECT_URL'', ''WRONG_URL'', ''V@R1ABL3'', ''SOME_VARIABLE'']"
  by (simp add: readme_registry_eq Object_keys_def Let_def not_array_index_readme)

lemma registry_ok_readme: "registry_ok (registeredVariables readme_registry)"
  by (simp add: readme_registry_eq registry_ok_def Envar_new_def)

lemma registry_ok_numeric: "registry_ok (registeredVariables numeric_registry)"
  by (simp add: numeric_registry_eq registry_ok_def Envar_new_def)

lemma failure_lines_readme:
  "List.map_filter (failure_line example_env (registeredVariables readme_registry))
     (Object_keys (registeredVariables readme_registry)) =
   [''WRONG_URL - Invalid protocol: https:'', ''V@R1ABL3 - value is null or undefined'']"
  unfolding Object_keys_readme
  by (simp add: readme_registry_eq failure_line_def List.map_filter_simps Envar_new_def
        https_url_def required_def example_env_def)

lemma rule_failures_readme:
  "List.map_filter (rule_failure example_env) (postValidations readme_registry) = []"
  by (simp add: readme_registry_eq rule_failure_def List.map_filter_simps Rule_new_def
        some_variable_is_set_def example_env_def)

lemma failure_lines_numeric:
  "List.map_filter (failure_line (\<lambda>k. None) (registeredVariables numeric_registry)) [''1'', ''2''] =
     [''1 - value is null or undefined'', ''2 - value is null or undefined'']"
  "List.map_filter (failure_line (\<lambda>k. None) (registeredVariables numeric_registry)) [''2'', ''1''] =
     [''2 - value is null or undefined'', ''1 - value is null or undefined'']"
  by (simp_all add: numeric_registry_eq failure_line_def List.map_filter_simps Envar_new_def
        required_def)

lemma mixed_registry_vars: "registeredVariables mixed_registry = registeredVariables readme_registry"
  by (simp add: mixed_registry_def registerPostValidation_def)

lemma mixed_registry_rules:
  "postValidations mixed_registry =
     [Rule_new ''some variable is set'' some_variable_is_set, Rule_new ''urls agree'' urls_agree]"
  by (simp add: mixed_registry_def registerPostValidation_def readme_registry_eq)

lemma rule_failures_mixed:
  "List.map_filter (rule_failure example_env) (postValidations mixed_registry) =
     [''the two urls differ'']"
  unfolding mixed_registry_rules
  by (simp add: rule_failure_def List.map_filter_simps Rule_new_def
        some_variable_is_set_def urls_agree_def example_env_def)

lemma access_events_readme:
  "concat (map (access_events example_env (registeredVariables readme_registry))
     (Object_keys (registeredVariables readme_registry))) =
   [EnvLookup ''CORRECT_URL'', ValidatorCall ''CORRECT_URL'' (Some ''https://google.com''),
    EnvLookup ''WRONG_URL'', ValidatorCall ''WRONG_URL'' (Some ''htttps://google.com''),
    EnvLookup ''V@R1ABL3'', ValidatorCall ''V@R1ABL3'' None,
    EnvLookup ''SOME_VARIABLE'', ValidatorCall ''SOME_VARIABLE'' (Some ''I exist!'')]"
  unfolding Object_keys_readme
  by (simp add: readme_registry_eq access_events_def Envar_new_def example_env_def)

section \<open>Properties of the validation pass\<close>

text \<open>
  C1, as the code has it. When the value of at least one registered binding cannot be
  read and no rule fails, \<open>validate\<close> throws one error. Its message is the header
  \<open>The following environment variables are invalid:\<close>, an empty line, and one line
  \<open>name - message\<close> for each failing binding, the lines separated by single newlines.
  The lines follow \<open>Object.keys\<close>: the names that are array indices come first, in
  ascending numeric order, and the other names follow in registration order; when no
  registered name is an array index this is the registration order.
\<close>

theorem validate_reports_failed_variables:
  assumes "registry_ok (registeredVariables this)"
    and "failure_line en (registeredVariables this) k = Some l"
    and "List.map_filter (rule_failure en) (postValidations this) = []"
  shows "fst (validate en this tr) =
     Inl (Error (''The following environment variables are invalid:'' @ nl @ nl @
       Array_join nl (List.map_filter (failure_line en (registeredVariables this))
                        (Object_keys (registeredVariables this))))) \<and>
    (\<not> list_ex is_array_index (map fst (registeredVariables this)) \<longrightarrow>
       Object_keys (registeredVariables this) = map fst (registeredVariables this))"
proof -
  from assms(2) have "k \<in> set (Object_keys (registeredVariables this))"
    by (simp add: set_Object_keys failure_line_key)
  with assms(2) have "List.map_filter (failure_line en (registeredVariables this))
                        (Object_keys (registeredVariables this)) \<noteq> []"
    by (auto simp: map_filter_eq_Nil_iff)
  then show ?thesis
    using assms(3) by (simp add: validate_char [OF assms(1)] report_def Object_keys_creation_order)
qed

theorem validate_reports_failed_variables_witness:
  "registry_ok (registeredVariables readme_registry) \<and>
   failure_line example_env (registeredVariables readme_registry) ''WRONG_URL'' =
     Some ''WRONG_URL - Invalid protocol: https:'' \<and>
   List.map_filter (rule_failure example_env) (postValidations readme_registry) = [] \<and>
   fst (validate example_env readme_registry []) =
     Inl (Error (''The following environment variables are invalid:'' @ nl @ nl @
                 ''WRONG_URL - Invalid protocol: https:'' @ nl @
                 ''V@R1ABL3 - value is null or undefined'')) \<and>
   Object_keys (registeredVariables readme_registry) =
     [''CORRECT_URL'', ''WRONG_URL'', ''V@R1ABL3'', ''SOME_VARIABLE'']"
proof -
  have h2: "failure_line example_env (registeredVariables readme_registry) ''WRONG_URL'' =
     Some ''WRONG_URL - Invalid protocol: https:''"
    by (simp add: readme_registry_eq failure_line_def Envar_new_def https_url_def example_env_def)
  note t = validate_reports_failed_variables [OF registry_ok_readme h2 rule_failures_readme, of "[]"]
  from t have r: "fst (validate example_env readme_registry []) =
     Inl (Error (''The following environment variables are invalid:'' @ nl @ nl @
       Array_join nl [''WRONG_URL - Invalid protocol: https:'',
                      ''V@R1ABL3 - value is null or undefined'']))"
    unfolding failure_lines_readme by (rule conjunct1)
  have j: "Array_join nl [''WRONG_URL - Invalid protocol: https:'',
                      ''V@R1ABL3 - value is null or undefined''] =
      ''WRONG_URL - Invalid protocol: https:'' @ nl @
                 ''V@R1ABL3 - value is null or undefined''"
    by simp
  show ?thesis
    unfolding r j
    by (simp add: registry_ok_readme h2 rule_failures_readme Object_keys_readme)
qed

text \<open>
  C1, as stated, asks for the registration order. With \<open>2\<close> registered before \<open>1\<close>
  and both missing from the environment, the report lists \<open>1\<close> before \<open>2\<close>.
\<close>

theorem registration_order_counterexample:
  "map fst (registeredVariables numeric_registry) = [''2'', ''1''] \<and>
   fst (validate (\<lambda>k. None) numeric_registry []) =
     Inl (Error (''The following environment variables are invalid:'' @ nl @ nl @
                 ''1 - value is null or undefined'' @ nl @
                 ''2 - value is null or undefined'')) \<and>
   fst (validate (\<lambda>k. None) numeric_registry []) \<noteq>
     Inl (Error (''The following environment variables are invalid:'' @ nl @ nl @
       Array_join nl
         (List.map_filter (failure_line (\<lambda>k. None) (registeredVariables numeric_registry))
            (map fst (registeredVariables numeric_registry)))))"
proof -
  have k: "map fst (registeredVariables numeric_registry) = [''2'', ''1'']"
    by (simp add: numeric_registry_eq)
  have p: "postValidations numeric_registry = []"
    by (simp add: numeric_registry_eq)
  have v: "fst (validate (\<lambda>k. None) numeric_registry []) =
     Inl (Error (''The following environment variables are invalid:'' @ nl @ nl @
                 ''1 - value is null or undefined'' @ nl @
                 ''2 - value is null or undefined''))"
    unfolding validate_char [OF registry_ok_numeric] Object_keys_numeric
      failure_lines_numeric p
    by (simp add: report_def)
  show ?thesis
    unfolding v k failure_lines_numeric by (simp add: nl_def)
qed

text \<open>
  C5. One call of \<open>validate\<close> reads the value of every registered binding, each name
  once, and calls the check of every rule, whatever fails on the way: the trace gains
  the calls of all bindings not yet evaluated and one check call for each rule. It
  returns normally exactly when no binding and no rule fails (so for the empty
  registry); otherwise it throws a single error whose message is the report of all
  failing bindings and all failing rules, each of them with an entry.
\<close>

theorem validate_aggregates_every_failure:
  assumes "registry_ok (registeredVariables this)"
  shows "snd (snd (validate en this tr)) =
       tr @ concat (map (access_events en (registeredVariables this))
                      (Object_keys (registeredVariables this))) @
            map (\<lambda>rule. CheckCall (rule_description rule)) (postValidations this) \<and>
     fst (snd (validate en this tr)) =
       this\<lparr>registeredVariables :=
              map (\<lambda>(k, e). (k, after_access en e)) (registeredVariables this)\<rparr> \<and>
     mset (Object_keys (registeredVariables this)) = mset (map fst (registeredVariables this)) \<and>
     fst (validate en this tr) =
       (if List.map_filter (failure_line en (registeredVariables this))
            (Object_keys (registeredVariables this)) = [] \<and>
           List.map_filter (rule_failure en) (postValidations this) = []
        then Inr ()
        else Inl (Error (report
               (List.map_filter (failure_line en (registeredVariables this))
                  (Object_keys (registeredVariables this)))
               (List.map_filter (rule_failure en) (postValidations this))))) \<and>
     (\<forall>k l. failure_line en (registeredVariables this) k = Some l \<longrightarrow>
        l \<in> set (List.map_filter (failure_line en (registeredVariables this))
                   (Object_keys (registeredVariables this)))) \<and>
     (\<forall>rule\<in>set (postValidations this). \<forall>m. rule_failure en rule = Some m \<longrightarrow>
        m \<in> set (List.map_filter (rule_failure en) (postValidations this))) \<and>
     fst (validate en (Envaridator_new :: 'v Envaridator) tr) = Inr ()"
proof -
  have e: "registry_ok (registeredVariables (Envaridator_new :: 'v Envaridator))"
    by (simp add: Envaridator_new_def registry_ok_def)
  have m: "\<And>f xs x y. x \<in> set xs \<Longrightarrow> f x = Some y \<Longrightarrow> y \<in> set (List.map_filter f xs)"
    by (force simp: List.map_filter_def)
  have 1: "\<forall>k l. failure_line en (registeredVariables this) k = Some l \<longrightarrow>
        l \<in> set (List.map_filter (failure_line en (registeredVariables this))
                   (Object_keys (registeredVariables this)))"
    by (auto intro!: m simp: set_Object_keys dest: failure_line_key)
  have 2: "\<forall>rule\<in>set (postValidations this). \<forall>m. rule_failure en rule = Some m \<longrightarrow>
        m \<in> set (List.map_filter (rule_failure en) (postValidations this))"
    by (auto intro: m)
  have 3: "fst (validate en (Envaridator_new :: 'v Envaridator) tr) = Inr ()"
    unfolding validate_char [OF e]
    by (simp add: Envaridator_new_def Object_keys_def List.map_filter_simps)
  show ?thesis
    using 1 2 3 by (simp add: validate_char [OF assms] mset_Object_keys)
qed

theorem validate_aggregates_every_failure_witness:
  "registry_ok (registeredVariables mixed_registry) \<and>
   snd (snd (validate example_env mixed_registry [])) =
     [EnvLookup ''CORRECT_URL'', ValidatorCall ''CORRECT_URL'' (Some ''https://google.com''),
      EnvLookup ''WRONG_URL'', ValidatorCall ''WRONG_URL'' (Some ''htttps://google.com''),
      EnvLookup ''V@R1ABL3'', ValidatorCall ''V@R1ABL3'' None,
      EnvLookup ''SOME_VARIABLE'', ValidatorCall ''SOME_VARIABLE'' (Some ''I exist!''),
      CheckCall ''some variable is set'', CheckCall ''urls agree''] \<and>
   fst (validate example_env mixed_registry []) =
     Inl (Error (''The following environment variables are invalid:'' @ nl @ nl @
                 ''WRONG_URL - Invalid protocol: https:'' @ nl @
                 ''V@R1ABL3 - value is null or undefined'' @ nl @ nl @
                 ''The following validation rules are invalid:'' @ nl @ nl @
                 ''the two urls differ''))"
proof -
  have ok: "registry_ok (registeredVariables mixed_registry)"
    by (simp add: mixed_registry_vars registry_ok_readme)
  note t = validate_aggregates_every_failure [OF ok, of example_env "[]",
      unfolded mixed_registry_vars failure_lines_readme access_events_readme rule_failures_mixed]
  from t have tr: "snd (snd (validate example_env mixed_registry [])) =
       [] @ [EnvLookup ''CORRECT_URL'', ValidatorCall ''CORRECT_URL'' (Some ''https://google.com''),
      EnvLookup ''WRONG_URL'', ValidatorCall ''WRONG_URL'' (Some ''htttps://google.com''),
      EnvLookup ''V@R1ABL3'', ValidatorCall ''V@R1ABL3'' None,
      EnvLookup ''SOME_VARIABLE'', ValidatorCall ''SOME_VARIABLE'' (Some ''I exist!'')] @
        map (\<lambda>rule. CheckCall (rule_description rule)) (postValidations mixed_registry)"
    by (rule conjunct1)
  from t have r: "fst (validate example_env mixed_registry []) =
       (if [''WRONG_URL - Invalid protocol: https:'', ''V@R1ABL3 - value is null or undefined''] = [] \<and>
           [''the two urls differ''] = []
        then Inr ()
        else Inl (Error (report
               [''WRONG_URL - Invalid protocol: https:'', ''V@R1ABL3 - value is null or undefined'']
               [''the two urls differ''])))"
    by (elim conjE)
  show ?thesis
    unfolding tr r mixed_registry_rules by (simp add: ok report_def Rule_new_def)
qed

text \<open>
  C6. When the check of a rule throws an error with message \<open>msg\<close>, \<open>Rule.validate\<close>
  throws an error with the same message, and the rules section of the report of
  \<open>validate\<close> lists the messages of the failing rules as they are, without the rules'
  descriptions; the line of a failing binding, in contrast, starts with the name of
  the variable and \<open>" - "\<close>.
\<close>

theorem rule_failure_is_reported_unprefixed:
  assumes "registry_ok (registeredVariables this)"
    and "rule \<in> set (postValidations this)"
    and "rule_validator rule en = Inl (Error msg)"
  shows "fst (Rule_validate en rule tr0) = Inl (Error msg) \<and>
     msg \<in> set (List.map_filter (rule_failure en) (postValidations this)) \<and>
     List.map_filter (rule_failure en) (postValidations this) =
       map (\<lambda>r. message (projl (rule_validator r en)))
         (filter (\<lambda>r. isl (rule_validator r en)) (postValidations this)) \<and>
     fst (validate en this tr) =
       Inl (Error
         ((if List.map_filter (failure_line en (registeredVariables this))
                (Object_keys (registeredVariables this)) = [] then []
           else ''The following environment variables are invalid:'' @ nl @ nl @
                Array_join nl (List.map_filter (failure_line en (registeredVariables this))
                                 (Object_keys (registeredVariables this)))) @
          nl @ nl @ ''The following validation rules are invalid:'' @ nl @ nl @
          Array_join nl (map (\<lambda>r. message (projl (rule_validator r en)))
                           (filter (\<lambda>r. isl (rule_validator r en)) (postValidations this))))) \<and>
     (\<forall>k l. failure_line en (registeredVariables this) k = Some l \<longrightarrow>
        (\<exists>m. l = k @ '' - '' @ m))"
proof -
  have 1: "fst (Rule_validate en rule tr0) = Inl (Error msg)"
    using assms(3) by (simp add: Rule_validate_def)
  have f: "rule_failure en rule = Some msg"
    using assms(3) by (simp add: rule_failure_def)
  have 2: "msg \<in> set (List.map_filter (rule_failure en) (postValidations this))"
    using assms(2) f by (force simp: List.map_filter_def)
  have 3: "\<And>rules. List.map_filter (rule_failure en) rules =
       map (\<lambda>r. message (projl (rule_validator r en)))
         (filter (\<lambda>r. isl (rule_validator r en)) rules)"
    subgoal for rules
      by (induction rules)
         (auto simp: List.map_filter_simps rule_failure_def split: sum.splits)
    done
  from 2 have ne: "List.map_filter (rule_failure en) (postValidations this) \<noteq> []" by auto
  have 4: "fst (validate en this tr) =
       Inl (Error
         ((if List.map_filter (failure_line en (registeredVariables this))
                (Object_keys (registeredVariables this)) = [] then []
           else ''The following environment variables are invalid:'' @ nl @ nl @
                Array_join nl (List.map_filter (failure_line en (registeredVariables this))
                                 (Object_keys (registeredVariables this)))) @
          nl @ nl @ ''The following validation rules are invalid:'' @ nl @ nl @
          Array_join nl (List.map_filter (rule_failure en) (postValidations this))))"
    using ne by (simp add: validate_char [OF assms(1)] report_def)
  have 5: "\<forall>k l. failure_line en (registeredVariables this) k = Some l \<longrightarrow>
        (\<exists>m. l = k @ '' - '' @ m)"
    by (auto simp: failure_line_def split: option.splits cache.splits sum.splits)
  from 1 2 4 5 show ?thesis unfolding 3 by blast
qed

theorem rule_failure_is_reported_unprefixed_witness:
  "registry_ok (registeredVariables mixed_registry) \<and>
   Rule_new ''urls agree'' urls_agree \<in> set (postValidations mixed_registry) \<and>
   rule_validator (Rule_new ''urls agree'' urls_agree) example_env =
     Inl (Error ''the two urls differ'') \<and>
   fst (Rule_validate example_env (Rule_new ''urls agree'' urls_agree) []) =
     Inl (Error ''the two urls differ'') \<and>
   fst (validate example_env mixed_registry []) =
     Inl (Error (''The following environment variables are invalid:'' @ nl @ nl @
                 ''WRONG_URL - Invalid protocol: https:'' @ nl @
                 ''V@R1ABL3 - value is null or undefined'' @ nl @ nl @
                 ''The following validation rules are invalid:'' @ nl @ nl @
                 ''the two urls differ''))"
proof -
  have ok: "registry_ok (registeredVariables mixed_registry)"
    by (simp add: mixed_registry_vars registry_ok_readme)
  have h2: "Rule_new ''urls agree'' urls_agree \<in> set (postValidations mixed_registry)"
    by (simp add: mixed_registry_rules)
  have h3: "rule_validator (Rule_new ''urls agree'' urls_agree) example_env =
     Inl (Error ''the two urls differ'')"
    by (simp add: Rule_new_def urls_agree_def example_env_def)
  have fr: "map (\<lambda>r. message (projl (rule_validator r example_env)))
              (filter (\<lambda>r. isl (rule_validator r example_env)) (postValidations mixed_registry)) =
            [''the two urls differ'']"
    unfolding mixed_registry_rules
    by (simp add: Rule_new_def urls_agree_def some_variable_is_set_def example_env_def)
  note t = rule_failure_is_reported_unprefixed [OF ok h2 h3, of "[]" "[]", unfolded mixed_registry_vars failure_lines_readme fr]
  from t have a: "fst (Rule_validate example_env (Rule_new ''urls agree'' urls_agree) []) =
     Inl (Error ''the two urls differ'')"
    by (rule conjunct1)
  from t have b: "fst (validate example_env mixed_registry []) =
       Inl (Error
         ((if [''WRONG_URL - Invalid protocol: https:'',
               ''V@R1ABL3 - value is null or undefined''] = [] then []
           else ''The following environment variables are invalid:'' @ nl @ nl @
                Array_join nl [''WRONG_URL - Invalid protocol: https:'',
                               ''V@R1ABL3 - value is null or undefined'']) @
          nl @ nl @ ''The following validation rules are invalid:'' @ nl @ nl @
          Array_join nl [''the two urls differ'']))"
    by (elim conjE)
  show ?thesis
    unfolding a b by (simp add: ok h2 h3)
qed

section \<open>Sorting and joining\<close>

lemma consistent_compare_code_units: "consistent_compare compare_code_units"
proof -
  have le: "\<And>a b. compare_code_units a b \<le> 0 \<longleftrightarrow>
      code_units a = code_units b \<or> ord_class.lexordp (code_units a) (code_units b)"
    by (simp add: compare_code_units_def)
  show ?thesis
    unfolding consistent_compare_def le
    using lexordp_linear lexordp_trans by metis
qed

lemma mset_insert_by: "mset (insert_by cmp x xs) = add_mset x (mset xs)"
  by (induction xs) simp_all

lemma mset_Array_sort: "mset (Array_sort cmp xs) = mset xs"
  by (induction xs) (simp_all add: mset_insert_by)

lemma set_insert_by: "set (insert_by cmp x xs) = insert x (set xs)"
  by (metis mset_insert_by set_mset_add_mset_insert set_mset_mset)

lemma ordered_insert_by:
  assumes "consistent_compare cmp" and "ordered_by cmp xs"
  shows "ordered_by cmp (insert_by cmp x xs)"
  using assms(2)
proof (induction xs)
  case Nil
  then show ?case by (simp add: ordered_by_def)
next
  case (Cons y ys)
  from assms(1) have tot: "\<And>a b. cmp a b \<le> 0 \<or> cmp b a \<le> 0"
    and tr: "\<And>a b c. cmp a b \<le> 0 \<Longrightarrow> cmp b c \<le> 0 \<Longrightarrow> cmp a c \<le> 0"
    unfolding consistent_compare_def by blast+
  show ?case
  proof (cases "cmp x y \<le> 0")
    case True
    with Cons.prems tr show ?thesis
      by (auto simp: ordered_by_def)
  next
    case False
    with tot have "cmp y x \<le> 0" by blast
    with Cons False show ?thesis
      by (auto simp: ordered_by_def set_insert_by)
  qed
qed

lemma ordered_Array_sort: "consistent_compare cmp \<Longrightarrow> ordered_by cmp (Array_sort cmp xs)"
  by (induction xs) (simp_all add: ordered_insert_by, simp add: ordered_by_def)

lemma Array_sort_eq_Nil_iff: "Array_sort cmp xs = [] \<longleftrightarrow> xs = []"
proof
  assume "Array_sort cmp xs = []"
  then have "mset xs = mset ([] :: 'a list)" by (simp flip: mset_Array_sort [of cmp xs])
  then show "xs = []" by simp
next
  assume "xs = []"
  then show "Array_sort cmp xs = []" by simp
qed

lemma Array_sort_singleton_iff: "Array_sort cmp xs = [x] \<longleftrightarrow> xs = [x]"
proof
  assume "Array_sort cmp xs = [x]"
  then have "mset xs = mset [x]" by (simp flip: mset_Array_sort [of cmp xs])
  then show "xs = [x]" by simp
next
  assume "xs = [x]"
  then show "Array_sort cmp xs = [x]" by simp
qed

lemma nl_not_Nil: "nl \<noteq> []"
  by (simp add: nl_def)

lemma Array_join_eq_Nil_iff:
  "sep \<noteq> [] \<Longrightarrow> Array_join sep xs = [] \<longleftrightarrow> xs = [] \<or> xs = ['''']"
  by (induction sep xs rule: Array_join.induct) auto

section \<open>The describing operations\<close>

lemma variable_lines_char:
  assumes "set names \<subseteq> fst ` set vars"
  shows "variable_lines fmt vars names =
           Inr (map (\<lambda>k. fmt k (description (the (map_of vars k)))) names)"
  using assms
proof (induction names)
  case Nil
  then show ?case by simp
next
  case (Cons k names)
  then obtain e where "map_of vars k = Some e"
    by (metis list.set_intros(1) map_of_eq_None_iff not_None_eq subsetD)
  with Cons show ?case by simp
qed

lemma lines_of_keys:
  "distinct (map fst vars) \<Longrightarrow>
   map (\<lambda>k. fmt k (description (the (map_of vars k)))) (map fst vars) =
   map (\<lambda>(k, e). fmt k (description e)) vars"
  by (induction vars) (auto simp: image_iff intro!: map_cong)

lemma mset_lines_Object_keys:
  assumes "distinct (map fst vars)"
  shows "mset (map (\<lambda>k. fmt k (description (the (map_of vars k)))) (Object_keys vars)) =
         mset (map (\<lambda>(k, e). fmt k (description e)) vars)"
proof -
  let ?g = "\<lambda>k. fmt k (description (the (map_of vars k)))"
  have "mset (map ?g (Object_keys vars)) = image_mset ?g (mset (Object_keys vars))"
    by (rule mset_map)
  also have "\<dots> = image_mset ?g (mset (map fst vars))"
    by (simp only: mset_Object_keys)
  also have "\<dots> = mset (map ?g (map fst vars))"
    by (rule mset_map [symmetric])
  finally show ?thesis by (simp only: lines_of_keys [OF assms])
qed

lemma describeAll_char:
  assumes "registry_ok (registeredVariables this)"
  shows "describeAll cmp this tr =
     (Inr (Array_join nl
        (Array_sort cmp
           (map (\<lambda>k. k @ '' - '' @ description (the (map_of (registeredVariables this) k)))
              (Object_keys (registeredVariables this))) @
         Array_sort cmp (map rule_description (postValidations this)))),
      this, tr)"
  by (simp add: describeAll_def variable_lines_char set_Object_keys)

lemma describeAllMarkdown_char:
  assumes "registry_ok (registeredVariables this)"
  shows "describeAllMarkdown cmp this tr =
     (Inr (Array_join nl
        ((if Array_join nl (Array_sort cmp
               (map (\<lambda>k. ''**'' @ k @ ''** - '' @
                       description (the (map_of (registeredVariables this) k)))
                  (Object_keys (registeredVariables this)))) = [] then []
          else [''#Variables'',
                Array_join nl (Array_sort cmp
                  (map (\<lambda>k. ''**'' @ k @ ''** - '' @
                          description (the (map_of (registeredVariables this) k)))
                     (Object_keys (registeredVariables this))))]) @
         (if Array_join nl (Array_sort cmp (map rule_description (postValidations this))) = []
          then []
          else [''#Post validation rules'',
                Array_join nl (Array_sort cmp (map rule_description (postValidations this)))]))),
      this, tr)"
  by (simp add: describeAllMarkdown_def variable_lines_char set_Object_keys Let_def)

lemma markdown_block_empty_iff:
  "Array_join nl (Array_sort cmp
      (map (\<lambda>k. ''**'' @ k @ ''** - '' @ description (the (map_of vars k))) (Object_keys vars))) = []
   \<longleftrightarrow> vars = []"
proof -
  let ?ls = "map (\<lambda>k. ''**'' @ k @ ''** - '' @ description (the (map_of vars k))) (Object_keys vars)"
  have "[] \<notin> set ?ls" by auto
  then have a: "?ls \<noteq> ['''']" by (metis list.set_intros(1))
  have "Object_keys vars = [] \<longleftrightarrow> map fst vars = []"
    using mset_Object_keys [of vars] by (metis mset_zero_iff)
  then have b: "?ls = [] \<longleftrightarrow> vars = []" by simp
  have "Array_join nl (Array_sort cmp ?ls) = [] \<longleftrightarrow> ?ls = [] \<or> ?ls = ['''']"
    unfolding Array_join_eq_Nil_iff [OF nl_not_Nil] Array_sort_eq_Nil_iff Array_sort_singleton_iff
    by (rule refl)
  with a b show ?thesis by blast
qed

lemma rules_block_empty_iff:
  "Array_join nl (Array_sort cmp (map rule_description rules)) = []
   \<longleftrightarrow> rules = [] \<or> map rule_description rules = ['''']"
  by (simp add: Array_join_eq_Nil_iff [OF nl_not_Nil] Array_sort_eq_Nil_iff
        Array_sort_singleton_iff)

lemma describeAll_mixed:
  "fst (describeAll compare_code_units mixed_registry []) =
     Inr (''CORRECT_URL - an url'' @ nl @ ''SOME_VARIABLE - some text'' @ nl @
          ''V@R1ABL3 - must be there'' @ nl @ ''WRONG_URL - another url'' @ nl @
          ''some variable is set'' @ nl @ ''urls agree'')"
  unfolding describeAll_def mixed_registry_vars Object_keys_readme mixed_registry_rules
  by (simp add: readme_registry_eq Envar_new_def Rule_new_def compare_code_units_def code_units_def)

lemma describeAllMarkdown_mixed:
  "fst (describeAllMarkdown compare_code_units mixed_registry []) =
     Inr (''#Variables'' @ nl @
          ''**CORRECT_URL** - an url'' @ nl @ ''**SOME_VARIABLE** - some text'' @ nl @
          ''**V@R1ABL3** - must be there'' @ nl @ ''**WRONG_URL** - another url'' @ nl @
          ''#Post validation rules'' @ nl @
          ''some variable is set'' @ nl @ ''urls agree'')"
  unfolding describeAllMarkdown_def mixed_registry_vars Object_keys_readme mixed_registry_rules
  by (simp add: readme_registry_eq Envar_new_def Rule_new_def compare_code_units_def
        code_units_def Let_def)

lemma map_of_map_values:
  "map_of (map (\<lambda>(k, e). (k, g k e)) vars) k = map_option (g k) (map_of vars k)"
  by (induction vars) auto

lemma variable_lines_frame:
  "variable_lines fmt
     (map (\<lambda>(k, e). (k, e\<lparr>validator := vd k, cache := c k\<rparr>)) vars) names =
   variable_lines fmt vars names"
proof (induction names)
  case Nil
  then show ?case by simp
next
  case (Cons k names)
  then show ?case
    by (cases "map_of vars k")
       (simp_all add: map_of_map_values [where g = "\<lambda>k e. e\<lparr>validator := vd k, cache := c k\<rparr>"]
          split: sum.splits)
qed

lemma Object_keys_frame:
  "Object_keys (map (\<lambda>(k, e). (k, g k e)) vars) = Object_keys vars"
proof -
  have "map fst (map (\<lambda>(k, e). (k, g k e)) vars) = map fst vars"
    by (induction vars) auto
  then show ?thesis unfolding Object_keys_def by (simp only:)
qed

lemma consistent_localeCompare_ascii: "consistent_compare localeCompare_ascii"
proof -
  have le: "\<And>a b. localeCompare_ascii a b \<le> 0 \<longleftrightarrow>
      ord_class.lexordp (primary_key a) (primary_key b) \<or>
      (primary_key a = primary_key b \<and> \<not> ord_class.lexordp (case_key b) (case_key a))"
    subgoal for a b
      using lexordp_linear [of "primary_key a" "primary_key b"]
        lexordp_antisym [of "primary_key a" "primary_key b"]
        lexordp_antisym [of "case_key a" "case_key b"]
      by (auto simp: localeCompare_ascii_def lexordp_irreflexive')
    done
  show ?thesis
    unfolding consistent_compare_def le
    apply (intro conjI allI impI)
    subgoal for a b
      using lexordp_linear [of "primary_key a" "primary_key b"]
        lexordp_antisym [of "case_key a" "case_key b"] by metis
    subgoal for a b c
      using lexordp_trans [of "primary_key a" "primary_key b" "primary_key c"]
        lexordp_trans [of "case_key c" "case_key a" "case_key b"]
        lexordp_linear [of "case_key a" "case_key b"]
      by metis
    done
qed

lemma letter_case_registry_eq:
  "letter_case_registry =
     \<lparr>registeredVariables =
        [(''B'', Envar_new ''B'' required ''y''), (''a'', Envar_new ''a'' required ''x'')],
      postValidations = []\<rparr>"
  by (simp add: letter_case_registry_def register_def Envaridator_new_def
        get_property_def Object_prototype_keys_def Let_def)

lemma Object_keys_letter_case:
  "Object_keys (registeredVariables letter_case_registry) = [''B'', ''a'']"
  by (simp add: letter_case_registry_eq Object_keys_def Let_def is_array_index_def)

lemma localeCompare_ascii_a_B:
  "localeCompare_ascii ''B - y'' ''a - x'' = 1"
  by (simp add: localeCompare_ascii_def primary_key_def case_key_def code_units_def fold_case_def)

lemma describeAll_letter_case:
  "fst (describeAll localeCompare_ascii letter_case_registry []) =
     Inr (''a - x'' @ nl @ ''B - y'')"
  unfolding describeAll_def Object_keys_letter_case
  by (simp add: letter_case_registry_eq Envar_new_def localeCompare_ascii_a_B)

section \<open>Properties of the describing operations\<close>

text \<open>
  C8, as the code has it. \<open>describeAll\<close> returns the lines \<open>name - description\<close> of
  the registered variables, sorted as whole lines by the comparison of
  \<open>localeCompare\<close>, followed by the descriptions of the rules, sorted likewise; the
  lines are joined by newlines and nothing else is in the text. The order is the
  collation of the host, whatever it is, not the lexicographic order of the code
  units.
\<close>

theorem describeAll_lists_sorted_lines:
  assumes "consistent_compare localeCompare"
    and "registry_ok (registeredVariables this)"
  shows "\<exists>envars rules.
     fst (describeAll localeCompare this tr) = Inr (Array_join nl (envars @ rules)) \<and>
     mset envars =
       mset (map (\<lambda>(k, e). k @ '' - '' @ description e) (registeredVariables this)) \<and>
     ordered_by localeCompare envars \<and>
     mset rules = mset (map rule_description (postValidations this)) \<and>
     ordered_by localeCompare rules"
proof (intro exI conjI)
  let ?ls = "map (\<lambda>k. k @ '' - '' @ description (the (map_of (registeredVariables this) k)))
               (Object_keys (registeredVariables this))"
  show "fst (describeAll localeCompare this tr) =
     Inr (Array_join nl (Array_sort localeCompare ?ls @
            Array_sort localeCompare (map rule_description (postValidations this))))"
    by (simp add: describeAll_char [OF assms(2)])
  show "mset (Array_sort localeCompare ?ls) =
       mset (map (\<lambda>(k, e). k @ '' - '' @ description e) (registeredVariables this))"
    using assms(2) unfolding mset_Array_sort
    by (intro mset_lines_Object_keys) (simp add: registry_ok_def)
  show "ordered_by localeCompare (Array_sort localeCompare ?ls)"
    using assms(1) by (rule ordered_Array_sort)
  show "mset (Array_sort localeCompare (map rule_description (postValidations this))) =
        mset (map rule_description (postValidations this))"
    by (rule mset_Array_sort)
  show "ordered_by localeCompare (Array_sort localeCompare (map rule_description (postValidations this)))"
    using assms(1) by (rule ordered_Array_sort)
qed

theorem describeAll_lists_sorted_lines_witness:
  "consistent_compare compare_code_units \<and>
   registry_ok (registeredVariables mixed_registry) \<and>
   (\<exists>envars rules.
     fst (describeAll compare_code_units mixed_registry []) =
       Inr (Array_join nl (envars @ rules)) \<and>
     mset envars =
       mset (map (\<lambda>(k, e). k @ '' - '' @ description e) (registeredVariables mixed_registry)) \<and>
     ordered_by compare_code_units envars \<and>
     mset rules = mset (map rule_description (postValidations mixed_registry)) \<and>
     ordered_by compare_code_units rules) \<and>
   fst (describeAll compare_code_units mixed_registry []) =
     Inr (''CORRECT_URL - an url'' @ nl @ ''SOME_VARIABLE - some text'' @ nl @
          ''V@R1ABL3 - must be there'' @ nl @ ''WRONG_URL - another url'' @ nl @
          ''some variable is set'' @ nl @ ''urls agree'')"
proof -
  have ok: "registry_ok (registeredVariables mixed_registry)"
    by (simp add: mixed_registry_vars registry_ok_readme)
  show ?thesis
    apply (intro conjI)
       apply (rule consistent_compare_code_units)
      apply (rule ok)
     apply (rule describeAll_lists_sorted_lines [OF consistent_compare_code_units ok])
    apply (rule describeAll_mixed)
    done
qed

text \<open>
  C8, as stated, asks for the lexicographic order. With the variables \<open>B\<close> and \<open>a\<close>
  registered, the line of \<open>a\<close> comes before the line of \<open>B\<close>, and these two lines are
  not in the lexicographic order of their code units.
\<close>

theorem letter_case_order_counterexample:
  "map fst (registeredVariables letter_case_registry) = [''B'', ''a''] \<and>
   fst (describeAll localeCompare_ascii letter_case_registry []) =
     Inr (Array_join nl [''a - x'', ''B - y'']) \<and>
   \<not> ordered_by compare_code_units [''a - x'', ''B - y'']"
  using describeAll_letter_case
  by (simp add: letter_case_registry_eq ordered_by_def compare_code_units_def code_units_def)

text \<open>
  C9, as the code has it. \<open>describeAllMarkdown\<close> puts the heading \<open>#Variables\<close> and
  the sorted block of variable lines exactly when a variable is registered. It puts
  the heading \<open>#Post validation rules\<close> and the sorted block of rule descriptions
  exactly when the joined text of the descriptions is not empty: when a rule is
  registered, unless the only rule has the empty description. Either heading comes
  right before its block, and a block that is left out leaves nothing behind.
\<close>

theorem describeAllMarkdown_headings:
  assumes "consistent_compare localeCompare"
    and "registry_ok (registeredVariables this)"
  shows "\<exists>envars rules.
     mset envars =
       mset (map (\<lambda>(k, e). ''**'' @ k @ ''** - '' @ description e) (registeredVariables this)) \<and>
     ordered_by localeCompare envars \<and>
     mset rules = mset (map rule_description (postValidations this)) \<and>
     ordered_by localeCompare rules \<and>
     fst (describeAllMarkdown localeCompare this tr) =
       Inr (Array_join nl
         ((if registeredVariables this = [] then []
           else [''#Variables'', Array_join nl envars]) @
          (if postValidations this = [] \<or>
              map rule_description (postValidations this) = [''''] then []
           else [''#Post validation rules'', Array_join nl rules])))"
proof (intro exI conjI)
  let ?ls = "map (\<lambda>k. ''**'' @ k @ ''** - '' @
                   description (the (map_of (registeredVariables this) k)))
               (Object_keys (registeredVariables this))"
  show "mset (Array_sort localeCompare ?ls) =
       mset (map (\<lambda>(k, e). ''**'' @ k @ ''** - '' @ description e) (registeredVariables this))"
    using assms(2) unfolding mset_Array_sort
    by (intro mset_lines_Object_keys [where fmt = "\<lambda>k d. ''**'' @ k @ ''** - '' @ d"])
       (simp add: registry_ok_def)
  show "ordered_by localeCompare (Array_sort localeCompare ?ls)"
    using assms(1) by (rule ordered_Array_sort)
  show "mset (Array_sort localeCompare (map rule_description (postValidations this))) =
        mset (map rule_description (postValidations this))"
    by (rule mset_Array_sort)
  show "ordered_by localeCompare (Array_sort localeCompare (map rule_description (postValidations this)))"
    using assms(1) by (rule ordered_Array_sort)
  show "fst (describeAllMarkdown localeCompare this tr) =
       Inr (Array_join nl
         ((if registeredVariables this = [] then []
           else [''#Variables'', Array_join nl (Array_sort localeCompare ?ls)]) @
          (if postValidations this = [] \<or>
              map rule_description (postValidations this) = [''''] then []
           else [''#Post validation rules'',
                 Array_join nl (Array_sort localeCompare
                   (map rule_description (postValidations this)))])))"
    unfolding describeAllMarkdown_char [OF assms(2)] markdown_block_empty_iff
      rules_block_empty_iff
    by simp
qed

theorem describeAllMarkdown_headings_witness:
  "consistent_compare compare_code_units \<and>
   registry_ok (registeredVariables mixed_registry) \<and>
   (\<exists>envars rules.
     mset envars =
       mset (map (\<lambda>(k, e). ''**'' @ k @ ''** - '' @ description e)
               (registeredVariables mixed_registry)) \<and>
     ordered_by compare_code_units envars \<and>
     mset rules = mset (map rule_description (postValidations mixed_registry)) \<and>
     ordered_by compare_code_units rules \<and>
     fst (describeAllMarkdown compare_code_units mixed_registry []) =
       Inr (Array_join nl
         ((if registeredVariables mixed_registry = [] then []
           else [''#Variables'', Array_join nl envars]) @
          (if postValidations mixed_registry = [] \<or>
              map rule_description (postValidations mixed_registry) = [''''] then []
           else [''#Post validation rules'', Array_join nl rules])))) \<and>
   fst (describeAllMarkdown compare_code_units mixed_registry []) =
     Inr (''#Variables'' @ nl @
          ''**CORRECT_URL** - an url'' @ nl @ ''**SOME_VARIABLE** - some text'' @ nl @
          ''**V@R1ABL3** - must be there'' @ nl @ ''**WRONG_URL** - another url'' @ nl @
          ''#Post validation rules'' @ nl @
          ''some variable is set'' @ nl @ ''urls agree'')"
proof -
  have ok: "registry_ok (registeredVariables mixed_registry)"
    by (simp add: mixed_registry_vars registry_ok_readme)
  show ?thesis
    apply (intro conjI)
       apply (rule consistent_compare_code_units)
      apply (rule ok)
     apply (rule describeAllMarkdown_headings [OF consistent_compare_code_units ok])
    apply (rule describeAllMarkdown_mixed)
    done
qed

text \<open>
  C9, as stated, asks for the rules heading whenever a rule is registered. With one
  rule whose description is empty, the text is empty.
\<close>

theorem blank_rule_heading_counterexample:
  "postValidations blank_rule_registry \<noteq> [] \<and>
   fst (describeAllMarkdown compare_code_units blank_rule_registry []) = Inr ''''"
  by (simp add: blank_rule_registry_def registerPostValidation_def Envaridator_new_def
        describeAllMarkdown_def Object_keys_def Rule_new_def Let_def)

text \<open>
  C10. \<open>describeAll\<close> and \<open>describeAllMarkdown\<close> return the registry as they found it,
  with every binding and its cache, and add nothing to the trace of lookups,
  validator calls and check calls. Their text is the same whatever the caches, the
  validators and the checks are.
\<close>

theorem describing_is_read_only:
  "snd (describeAll localeCompare this tr) = (this, tr) \<and>
   snd (describeAllMarkdown localeCompare this tr) = (this, tr) \<and>
   fst (describeAll localeCompare
          (this\<lparr>registeredVariables :=
                   map (\<lambda>(k, e). (k, e\<lparr>validator := vd k, cache := c k\<rparr>))
                     (registeredVariables this),
                 postValidations :=
                   map (\<lambda>r. r\<lparr>rule_validator := ch r\<rparr>) (postValidations this)\<rparr>) tr') =
     fst (describeAll localeCompare this tr) \<and>
   fst (describeAllMarkdown localeCompare
          (this\<lparr>registeredVariables :=
                   map (\<lambda>(k, e). (k, e\<lparr>validator := vd k, cache := c k\<rparr>))
                     (registeredVariables this),
                 postValidations :=
                   map (\<lambda>r. r\<lparr>rule_validator := ch r\<rparr>) (postValidations this)\<rparr>) tr') =
     fst (describeAllMarkdown localeCompare this tr)"
proof -
  have r: "map (rule_description \<circ> (\<lambda>r. r\<lparr>rule_validator := ch r\<rparr>)) (postValidations this) =
           map rule_description (postValidations this)"
    by simp
  have k: "Object_keys (map (\<lambda>(k, e). (k, e\<lparr>validator := vd k, cache := c k\<rparr>))
                          (registeredVariables this)) = Object_keys (registeredVariables this)"
    by (rule Object_keys_frame)
  show ?thesis
    by (simp add: describeAll_def describeAllMarkdown_def variable_lines_frame k r Let_def
          split: sum.splits)
qed

end
